theory Spec2Isabelle
  imports Main
begin

section \<open>The header \<^verbatim>\<open>Sources/Clibgit2/git2.h\<close>\<close>

text \<open>
  The header holds no executable code: it is a sequence of preprocessor directives,
  two struct definitions and one variable definition. Its content is therefore
  embedded as data, one value per top-level item, in the order of the file.
  Types defined by libgit2 (\<^verbatim>\<open>git_smart_subtransport\<close>, \<^verbatim>\<open>git_transport\<close>, ...) are
  referred to by name; their sizes and alignments are parameters of the layout
  functions below.
\<close>

datatype ctype = Void | Named string | Pointer ctype

type_synonym member = "ctype \<times> string"

datatype specifier = Static | Const

datatype initializer = Macro string

datatype decl =
    PragmaOnce
  | Include string
  | StructDef string "member list"
  | VarDef "specifier list" ctype string initializer
  | FunDef ctype string "member list"

text \<open>
  \<^verbatim>\<open>struct git_smart_subtransport_swift {
      git_smart_subtransport parent;
      git_transport *owner;
      void *context;
  };\<close>
\<close>

definition git_smart_subtransport_swift :: decl where
  "git_smart_subtransport_swift =
     StructDef ''git_smart_subtransport_swift''
       [(Named ''git_smart_subtransport'', ''parent''),
        (Pointer (Named ''git_transport''), ''owner''),
        (Pointer Void, ''context'')]"

text \<open>
  \<^verbatim>\<open>struct git_smart_subtransport_stream_swift {
      git_smart_subtransport_stream parent;
      void *context;
  };\<close>
\<close>

definition git_smart_subtransport_stream_swift :: decl where
  "git_smart_subtransport_stream_swift =
     StructDef ''git_smart_subtransport_stream_swift''
       [(Named ''git_smart_subtransport_stream'', ''parent''),
        (Pointer Void, ''context'')]"

text \<open>
  \<^verbatim>\<open>static git_status_options git_status_options_init_value = GIT_STATUS_OPTIONS_INIT;\<close>
\<close>

definition git_status_options_init_value :: decl where
  "git_status_options_init_value =
     VarDef [Static] (Named ''git_status_options'') ''git_status_options_init_value''
       (Macro ''GIT_STATUS_OPTIONS_INIT'')"

text \<open>The whole file, line by line.\<close>

definition git2_h :: "decl list" where
  "git2_h =
     [PragmaOnce,
      Include ''git2.h'',
      Include ''git2/sys/errors.h'',
      Include ''git2/sys/transport.h'',
      git_smart_subtransport_swift,
      git_smart_subtransport_stream_swift,
      git_status_options_init_value]"

subsection \<open>Reading declarations\<close>

fun is_directive :: "decl \<Rightarrow> bool" where
  "is_directive PragmaOnce = True"
| "is_directive (Include _) = True"
| "is_directive _ = False"

fun is_struct_def :: "decl \<Rightarrow> bool" where
  "is_struct_def (StructDef _ _) = True"
| "is_struct_def _ = False"

fun is_var_def :: "decl \<Rightarrow> bool" where
  "is_var_def (VarDef _ _ _ _) = True"
| "is_var_def _ = False"

fun is_fun_def :: "decl \<Rightarrow> bool" where
  "is_fun_def (FunDef _ _ _) = True"
| "is_fun_def _ = False"

fun members :: "decl \<Rightarrow> member list" where
  "members (StructDef _ ms) = ms"
| "members _ = []"

fun specifiers :: "decl \<Rightarrow> specifier list" where
  "specifiers (VarDef sp _ _ _) = sp"
| "specifiers _ = []"

fun position :: "string \<Rightarrow> member list \<Rightarrow> nat option" where
  "position n [] = None"
| "position n ((t, m) # ms) = (if m = n then Some 0 else map_option Suc (position n ms))"

fun member_type :: "string \<Rightarrow> member list \<Rightarrow> ctype option" where
  "member_type n [] = None"
| "member_type n ((t, m) # ms) = (if m = n then Some t else member_type n ms)"

definition declared_before :: "string \<Rightarrow> string \<Rightarrow> decl \<Rightarrow> bool" where
  "declared_before a b d =
     (case (position a (members d), position b (members d)) of
        (Some i, Some j) \<Rightarrow> i < j
      | _ \<Rightarrow> False)"

text \<open>
  The members a wrapper adds to the native struct it embeds: every member but
  \<^verbatim>\<open>parent\<close>.
\<close>

definition added_members :: "decl \<Rightarrow> member list" where
  "added_members d = filter (\<lambda>m. snd m \<noteq> ''parent'') (members d)"

text \<open>
  An object is a modifiable lvalue unless its declaration is const-qualified
  (C11 6.3.2.1). The typedef \<^verbatim>\<open>git_status_options\<close> of libgit2 is a plain struct
  type, so the qualifiers of the declaration are the ones written in this header.
\<close>

definition const_qualified :: "decl \<Rightarrow> bool" where
  "const_qualified d = (Const \<in> set (specifiers d))"

subsection \<open>Struct layout\<close>

text \<open>
  C lays the members of a struct out in declaration order, each at the next offset
  that satisfies its alignment, starting at offset 0 (C11 6.7.2.1). \<open>sz\<close> and
  \<open>al\<close> give the size and the alignment of a type; they belong to the platform
  and to libgit2, not to this header.
\<close>

definition align_up :: "nat \<Rightarrow> nat \<Rightarrow> nat" where
  "align_up n a = n + (a - n mod a) mod a"

fun layout :: "(ctype \<Rightarrow> nat) \<Rightarrow> (ctype \<Rightarrow> nat) \<Rightarrow> nat \<Rightarrow> member list \<Rightarrow> (string \<times> nat) list" where
  "layout sz al off [] = []"
| "layout sz al off ((t, n) # ms) =
     (n, align_up off (al t)) # layout sz al (align_up off (al t) + sz t) ms"

definition offsetof :: "(ctype \<Rightarrow> nat) \<Rightarrow> (ctype \<Rightarrow> nat) \<Rightarrow> decl \<Rightarrow> string \<Rightarrow> nat option" where
  "offsetof sz al d n = map_of (layout sz al 0 (members d)) n"

text \<open>The address of member \<open>n\<close> of an instance of struct \<open>d\<close> placed at address \<open>base\<close>.\<close>

definition member_address :: "(ctype \<Rightarrow> nat) \<Rightarrow> (ctype \<Rightarrow> nat) \<Rightarrow> nat \<Rightarrow> decl \<Rightarrow> string \<Rightarrow> nat option" where
  "member_address sz al base d n = map_option (\<lambda>off. base + off) (offsetof sz al d n)"


section \<open>The transport plugin layer\<close>

text \<open>
  The header only declares the two wrapper structs. The registry, the subtransport
  and the stream that are built on them are not part of the C source; the
  definitions of this section are modelled from the specification (its sections
  3, 4 and 7), one definition per operation of its contracts.
\<close>

text \<open>Modelled from the spec: the error taxonomy of section 7 (no error type is in the C source).\<close>

datatype error =
    InvalidURLError
  | UnsupportedSchemeError
  | DuplicateSchemeError
  | SequenceError
  | ConnectionError
  | StreamIOError
  | HandleReleaseError

text \<open>Modelled from the spec: the bytes a stream carries; the layer never interprets them.\<close>

type_synonym bytes = string

subsection \<open>Transport registry\<close>

text \<open>Modelled from the spec: the TransportDescriptor record of section 3,
  \<^verbatim>\<open>{scheme, factory}\<close>; the registry that holds the descriptors is not in the C source.
\<close>

record 'f TransportDescriptor =
  scheme :: string
  factory :: 'f

type_synonym 'f registry = "'f TransportDescriptor list"

text \<open>Modelled from the spec: "parses scheme prefix" of \<^verbatim>\<open>resolve\<close> (section 4.1), the
  parser being absent from the source. The scheme of \<^verbatim>\<open>scheme://...\<close> is the text
  before the first \<^verbatim>\<open>://\<close>; a URL without \<^verbatim>\<open>://\<close> has no scheme.
\<close>

fun scheme_of :: "string \<Rightarrow> string option" where
  "scheme_of [] = None"
| "scheme_of (c # cs) =
     (if take 3 (c # cs) = ''://'' then Some [] else map_option ((#) c) (scheme_of cs))"

text \<open>Modelled from the spec: \<^verbatim>\<open>register(scheme, factory)\<close> of section 4.1, absent from
  the source: "fails with DuplicateSchemeError if scheme already registered".
\<close>

definition register :: "string \<Rightarrow> 'f \<Rightarrow> 'f registry \<Rightarrow> error + 'f registry" where
  "register s f reg =
     (if s \<in> set (map scheme reg) then Inl DuplicateSchemeError
      else Inr (reg @ [\<lparr>scheme = s, factory = f\<rparr>]))"

text \<open>Modelled from the spec: \<^verbatim>\<open>resolve(url) -> factory\<close> of section 4.1, absent from the
  source: "parses scheme prefix; fails with UnsupportedSchemeError if no match",
  descriptors being "looked up by exact scheme match".
\<close>

definition resolve :: "string \<Rightarrow> 'f registry \<Rightarrow> error + 'f" where
  "resolve url reg =
     (case scheme_of url of
        None \<Rightarrow> Inl UnsupportedSchemeError
      | Some s \<Rightarrow>
          (case find (\<lambda>d. scheme d = s) reg of
             None \<Rightarrow> Inl UnsupportedSchemeError
           | Some d \<Rightarrow> Inr (factory d)))"

text \<open>Modelled from the spec: the process-wide setup of section 4.1, a sequence of
  \<^verbatim>\<open>register\<close> calls on the empty registry. A call that fails returns its error
  and leaves the registry as it was.
\<close>

fun register_all :: "(string \<times> 'f) list \<Rightarrow> 'f registry \<Rightarrow> 'f registry" where
  "register_all [] reg = reg"
| "register_all ((s, f) # ps) reg =
     register_all ps (case register s f reg of Inl e \<Rightarrow> reg | Inr reg' \<Rightarrow> reg')"

subsection \<open>Subtransport stream\<close>

text \<open>Modelled from the spec: the enumerations of section 3 (no such type is in the C source).\<close>

datatype action = UploadPackLs | UploadPack | ReceivePackLs | ReceivePack

datatype direction = ReadOnly | Duplex

datatype connectionState = Created | Opening | Open | Closed | Failed

text \<open>Modelled from the spec: the underlying transport, which the layer reaches only
  through its byte stream. At a call it is either up or has failed ("connection
  reset, process exit non-zero, TLS error").
\<close>

datatype transport = Up | Dropped

text \<open>Modelled from the spec: SubtransportStream of section 3, with its attributes
  \<^verbatim>\<open>action\<close>, \<^verbatim>\<open>direction\<close> and \<^verbatim>\<open>closed\<close>. The byte pipe itself is three buffers:
  \<open>inbound\<close>, the data the transport has still to deliver (end-of-data when it is
  empty); \<open>buffered\<close>, the output accepted by \<^verbatim>\<open>write\<close> and not yet flushed; and
  \<open>flushed\<close>, the output handed to the transport.
\<close>

record SubtransportStream =
  action :: action
  direction :: direction
  closed :: bool
  inbound :: bytes
  buffered :: bytes
  flushed :: bytes

text \<open>Modelled from the spec: \<^verbatim>\<open>read(maxBytes) -> bytes\<close> of section 4.3, absent from the
  source. No read succeeds once \<^verbatim>\<open>closed\<close> is true; a transport failure is a
  StreamIOError; otherwise the call returns up to \<^verbatim>\<open>maxBytes\<close> bytes, and none at
  end-of-data. The spec names no error for a read on a closed stream: StreamIOError,
  the only stream error of its taxonomy, is used.
\<close>

definition stream_read :: "nat \<Rightarrow> transport \<Rightarrow> SubtransportStream \<Rightarrow> error + (bytes \<times> SubtransportStream)" where
  "stream_read maxBytes tr st =
     (if closed st then Inl StreamIOError
      else if tr = Dropped then Inl StreamIOError
      else Inr (take maxBytes (inbound st), st\<lparr>inbound := drop maxBytes (inbound st)\<rparr>))"

text \<open>Modelled from the spec: \<^verbatim>\<open>write(bytes) -> bytesWritten\<close> of section 4.3, absent from
  the source. \<open>room\<close> is the number of bytes the transport accepts under
  backpressure; the call "fails with StreamIOError analogously".
\<close>

definition stream_write :: "bytes \<Rightarrow> nat \<Rightarrow> transport \<Rightarrow> SubtransportStream \<Rightarrow> error + (nat \<times> SubtransportStream)" where
  "stream_write bs room tr st =
     (if closed st then Inl StreamIOError
      else if tr = Dropped then Inl StreamIOError
      else Inr (min (length bs) room, st\<lparr>buffered := buffered st @ take room bs\<rparr>))"

text \<open>Modelled from the spec: the stream's \<^verbatim>\<open>close()\<close> of section 4.3, absent from the
  source: "idempotent; flushes any buffered output before marking closed when
  direction == Duplex". The spec gives it no error: it returns the new state.
\<close>

definition stream_close :: "SubtransportStream \<Rightarrow> SubtransportStream" where
  "stream_close st =
     (if closed st then st
      else (if direction st = Duplex
            then st\<lparr>flushed := flushed st @ buffered st, buffered := []\<rparr>
            else st)\<lparr>closed := True\<rparr>)"

text \<open>Modelled from the spec: the calls the protocol driver makes on one stream (section 6).\<close>

datatype stream_op = SRead nat transport | SWrite bytes nat transport | SClose

text \<open>Modelled from the spec: the effect of one call on the stream. A call that fails
  returns its error and leaves the stream as it was.
\<close>

fun stream_exec :: "stream_op \<Rightarrow> SubtransportStream \<Rightarrow> SubtransportStream" where
  "stream_exec (SRead n tr) st = (case stream_read n tr st of Inl e \<Rightarrow> st | Inr (bs, st') \<Rightarrow> st')"
| "stream_exec (SWrite bs room tr) st =
     (case stream_write bs room tr st of Inl e \<Rightarrow> st | Inr (n, st') \<Rightarrow> st')"
| "stream_exec SClose st = stream_close st"

text \<open>Modelled from the spec: a sequence of calls on one stream, in order.\<close>

fun stream_run :: "stream_op list \<Rightarrow> SubtransportStream \<Rightarrow> SubtransportStream" where
  "stream_run [] st = st"
| "stream_run (x # xs) st = stream_run xs (stream_exec x st)"

subsection \<open>Subtransport\<close>

text \<open>Modelled from the spec: Subtransport of section 3 with its attributes
  \<^verbatim>\<open>remoteURL\<close>, \<^verbatim>\<open>connectionState\<close> and \<^verbatim>\<open>ownerHandle\<close>, the direction it was opened
  with, the streams it has created, and the ContextHandle. The handle has a single
  owner: \<open>contextHandle\<close> is \<open>Some h\<close> while the subtransport holds it and \<open>None\<close>
  once it has been given back; \<open>releases\<close> is the release counter of property 5.
\<close>

record Subtransport =
  remoteURL :: string
  openDirection :: direction
  connectionState :: connectionState
  ownerHandle :: nat
  contextHandle :: "nat option"
  releases :: nat
  streams :: "SubtransportStream list"

text \<open>Modelled from the spec: \<^verbatim>\<open>open(url, direction) -> Subtransport\<close> of section 4.2,
  absent from the source: "validates URL syntax; fails with InvalidURLError", no
  network I/O. A URL is taken as valid when it has a scheme prefix.
\<close>

definition subtransport_open :: "string \<Rightarrow> direction \<Rightarrow> nat \<Rightarrow> nat \<Rightarrow> error + Subtransport" where
  "subtransport_open url dir owner h =
     (if scheme_of url = None then Inl InvalidURLError
      else Inr \<lparr>remoteURL = url, openDirection = dir, connectionState = Created,
                ownerHandle = owner, contextHandle = Some h, releases = 0, streams = []\<rparr>)"

text \<open>Modelled from the spec: the active streams of a subtransport, those of its streams
  that are not closed (the invariant of section 3 bounds their number).
\<close>

definition open_streams :: "Subtransport \<Rightarrow> SubtransportStream list" where
  "open_streams s = filter (\<lambda>st. \<not> closed st) (streams s)"

text \<open>Modelled from the spec: what the network does when an action connects: it
  either refuses, or connects and will deliver the given response bytes.
\<close>

datatype connect = Connected bytes | Refused

text \<open>Modelled from the spec: \<^verbatim>\<open>action(type) -> SubtransportStream\<close> of section 4.2,
  absent from the source: "fails with SequenceError if a previous stream for this
  Subtransport is still open; fails with ConnectionError if the underlying
  network/process spawn fails. On success, transitions connectionState to Open".
  The new stream is returned as its index in \<open>streams\<close>.
\<close>

definition subtransport_action :: "action \<Rightarrow> connect \<Rightarrow> Subtransport \<Rightarrow> error + (nat \<times> Subtransport)" where
  "subtransport_action ty conn s =
     (if open_streams s \<noteq> [] then Inl SequenceError
      else case conn of
        Refused \<Rightarrow> Inl ConnectionError
      | Connected response \<Rightarrow>
          Inr (length (streams s),
               s\<lparr>connectionState := Open,
                 streams := streams s @
                   [\<lparr>action = ty, direction = openDirection s, closed = False,
                     inbound = response, buffered = [], flushed = []\<rparr>]\<rparr>))"

text \<open>Modelled from the spec: the single release point of the ContextHandle
  (section 3). Releasing moves the handle out of the subtransport and counts the
  release; with the handle already gone there is nothing to release, so that a
  double release cannot be written.
\<close>

definition release_context :: "Subtransport \<Rightarrow> Subtransport" where
  "release_context s =
     (case contextHandle s of
        None \<Rightarrow> s
      | Some h \<Rightarrow> s\<lparr>contextHandle := None, releases := Suc (releases s)\<rparr>)"

text \<open>Modelled from the spec: the subtransport's \<^verbatim>\<open>close()\<close> of section 4.2, absent from
  the source: "idempotent; transitions to Closed; releases the ContextHandle exactly
  once. Calling close() twice is a no-op, not an error". Its streams are closed with
  it (section 3: a stream is closed "implicitly when the Subtransport closes").
\<close>

definition subtransport_close :: "Subtransport \<Rightarrow> Subtransport" where
  "subtransport_close s =
     (if connectionState s = Closed then s
      else release_context
             (s\<lparr>connectionState := Closed, streams := map stream_close (streams s)\<rparr>))"

text \<open>Modelled from the spec: the calls the protocol driver makes on a subtransport and
  on its streams (section 6). A stream is named by its index; an index that names no
  stream of the subtransport denotes no call and changes nothing.
\<close>

datatype op =
    Action action connect
  | Read nat nat transport
  | Write nat bytes nat transport
  | CloseStream nat
  | Close

text \<open>Modelled from the spec: a call on the stream of index \<open>i\<close>, written back in place.\<close>

definition on_stream :: "nat \<Rightarrow> (SubtransportStream \<Rightarrow> error + SubtransportStream) \<Rightarrow> Subtransport \<Rightarrow> error + Subtransport" where
  "on_stream i f s =
     (if i < length (streams s)
      then (case f (streams s ! i) of
              Inl e \<Rightarrow> Inl e
            | Inr st' \<Rightarrow> Inr (s\<lparr>streams := (streams s)[i := st']\<rparr>))
      else Inr s)"

text \<open>Modelled from the spec: one call of the driver, with the error it may return.\<close>

fun step :: "op \<Rightarrow> Subtransport \<Rightarrow> error + Subtransport" where
  "step (Action ty conn) s =
     (case subtransport_action ty conn s of Inl e \<Rightarrow> Inl e | Inr (i, s') \<Rightarrow> Inr s')"
| "step (Read i n tr) s =
     on_stream i (\<lambda>st. case stream_read n tr st of Inl e \<Rightarrow> Inl e | Inr (bs, st') \<Rightarrow> Inr st') s"
| "step (Write i bs room tr) s =
     on_stream i (\<lambda>st. case stream_write bs room tr st of Inl e \<Rightarrow> Inl e | Inr (n, st') \<Rightarrow> Inr st') s"
| "step (CloseStream i) s = on_stream i (\<lambda>st. Inr (stream_close st)) s"
| "step Close s = Inr (subtransport_close s)"

text \<open>Modelled from the spec: the state after a call. A call that fails returns its
  error to the driver and leaves the subtransport as it was (section 7: errors are returned to the immediate caller, none is retried).
\<close>

definition exec :: "op \<Rightarrow> Subtransport \<Rightarrow> Subtransport" where
  "exec x s = (case step x s of Inl e \<Rightarrow> s | Inr s' \<Rightarrow> s')"

text \<open>Modelled from the spec: a sequence of calls on one subtransport, in order.\<close>

fun run :: "op list \<Rightarrow> Subtransport \<Rightarrow> Subtransport" where
  "run [] s = s"
| "run (x # xs) s = run xs (exec x s)"

text \<open>Modelled from the spec: the report of a failed call to the Git core (section 6:
  the subtransport "reports connection/auth failures through an error-reporting
  callback"), the callback being absent from the source. A connection failure is
  reported to the owner, the invoking transport context; this is the one place where
  \<open>ownerHandle\<close> is read.
\<close>

definition report :: "op \<Rightarrow> Subtransport \<Rightarrow> (nat \<times> error) option" where
  "report x s =
     (case step x s of
        Inl e \<Rightarrow> (if e = ConnectionError then Some (ownerHandle s, e) else None)
      | Inr s' \<Rightarrow> None)"

text \<open>Modelled from the spec: the state of the context handle, as every operation keeps it: the release counter
  is 1 when the handle has been given back and 0 while it is held, and a closed
  subtransport holds no handle.
\<close>

definition handle_inv :: "Subtransport \<Rightarrow> bool" where
  "handle_inv s =
     (releases s = (if contextHandle s = None then 1 else 0) \<and>
      (contextHandle s = None \<or> connectionState s \<noteq> Closed))"

section \<open>Properties of the header\<close>

lemma align_up_ge: "n \<le> align_up n a"
  by (simp add: align_up_def)

lemma align_up_zero: "align_up 0 a = 0"
  by (simp add: align_up_def)

text \<open>
  C2, as stated: in both wrapper structs the opaque context pointer is declared
  before the embedded native struct. The header declares them the other way round.
\<close>

theorem context_before_parent_counterexample:
  "\<not> declared_before ''context'' ''parent'' git_smart_subtransport_swift \<and>
   \<not> declared_before ''context'' ''parent'' git_smart_subtransport_stream_swift"
  by (simp add: declared_before_def git_smart_subtransport_swift_def
      git_smart_subtransport_stream_swift_def)

text \<open>
  C2, amended: each wrapper struct appends an opaque context pointer to the native
  struct. The native struct \<^verbatim>\<open>parent\<close> is declared before \<^verbatim>\<open>void *context\<close>,
  which is the last member, and on every platform the context pointer lies at or
  beyond the end of the embedded native struct.
\<close>

theorem context_after_parent:
  "declared_before ''parent'' ''context'' git_smart_subtransport_swift \<and>
   position ''parent'' (members git_smart_subtransport_swift) = Some 0 \<and>
   position ''parent'' (members git_smart_subtransport_stream_swift) = Some 0 \<and>
   declared_before ''parent'' ''context'' git_smart_subtransport_stream_swift \<and>
   last (members git_smart_subtransport_swift) = (Pointer Void, ''context'') \<and>
   last (members git_smart_subtransport_stream_swift) = (Pointer Void, ''context'') \<and>
   member_type ''parent'' (members git_smart_subtransport_swift)
     = Some (Named ''git_smart_subtransport'') \<and>
   member_type ''parent'' (members git_smart_subtransport_stream_swift)
     = Some (Named ''git_smart_subtransport_stream'') \<and>
   (case (offsetof sz al git_smart_subtransport_swift ''parent'',
          offsetof sz al git_smart_subtransport_swift ''context'') of
      (Some p, Some c) \<Rightarrow> p + sz (Named ''git_smart_subtransport'') \<le> c
    | _ \<Rightarrow> False) \<and>
   (case (offsetof sz al git_smart_subtransport_stream_swift ''parent'',
          offsetof sz al git_smart_subtransport_stream_swift ''context'') of
      (Some p, Some c) \<Rightarrow> p + sz (Named ''git_smart_subtransport_stream'') \<le> c
    | _ \<Rightarrow> False)"
proof -
  have order: "declared_before ''parent'' ''context'' git_smart_subtransport_swift"
    "declared_before ''parent'' ''context'' git_smart_subtransport_stream_swift"
    by (simp_all add: declared_before_def git_smart_subtransport_swift_def
        git_smart_subtransport_stream_swift_def)
  have lasts: "last (members git_smart_subtransport_swift) = (Pointer Void, ''context'')"
    "last (members git_smart_subtransport_stream_swift) = (Pointer Void, ''context'')"
    by (simp_all add: git_smart_subtransport_swift_def git_smart_subtransport_stream_swift_def)
  have types: "member_type ''parent'' (members git_smart_subtransport_swift)
      = Some (Named ''git_smart_subtransport'')"
    "member_type ''parent'' (members git_smart_subtransport_stream_swift)
      = Some (Named ''git_smart_subtransport_stream'')"
    by (simp_all add: git_smart_subtransport_swift_def git_smart_subtransport_stream_swift_def)
  have step: "a \<le> align_up (align_up a x + b) y" for a b x y :: nat
    using align_up_ge [of a x] align_up_ge [of "align_up a x + b" y] by linarith
  have off1: "(case (offsetof sz al git_smart_subtransport_swift ''parent'',
          offsetof sz al git_smart_subtransport_swift ''context'') of
      (Some p, Some c) \<Rightarrow> p + sz (Named ''git_smart_subtransport'') \<le> c
    | _ \<Rightarrow> False)"
    using step [of "sz (Named ''git_smart_subtransport'')" "al (Pointer (Named ''git_transport''))"
        "sz (Pointer (Named ''git_transport''))" "al (Pointer Void)"]
    by (simp add: offsetof_def git_smart_subtransport_swift_def align_up_zero)
  have off2: "(case (offsetof sz al git_smart_subtransport_stream_swift ''parent'',
          offsetof sz al git_smart_subtransport_stream_swift ''context'') of
      (Some p, Some c) \<Rightarrow> p + sz (Named ''git_smart_subtransport_stream'') \<le> c
    | _ \<Rightarrow> False)"
    using align_up_ge [of "sz (Named ''git_smart_subtransport_stream'')" "al (Pointer Void)"]
    by (simp add: offsetof_def git_smart_subtransport_stream_swift_def align_up_zero)
  have firsts: "position ''parent'' (members git_smart_subtransport_swift) = Some 0"
    "position ''parent'' (members git_smart_subtransport_stream_swift) = Some 0"
    by (simp_all add: git_smart_subtransport_swift_def git_smart_subtransport_stream_swift_def)
  show ?thesis
    by (intro conjI order lasts types off1 off2 firsts)
qed

text \<open>
  C3: in both wrapper structs the embedded native struct \<^verbatim>\<open>parent\<close> is the first
  declared member, so for every instance, whatever the sizes and alignments of the
  member types, the address of \<^verbatim>\<open>parent\<close> is the address of the wrapper itself.
\<close>

theorem parent_at_offset_zero:
  "hd (members git_smart_subtransport_swift) = (Named ''git_smart_subtransport'', ''parent'') \<and>
   hd (members git_smart_subtransport_stream_swift)
     = (Named ''git_smart_subtransport_stream'', ''parent'') \<and>
   position ''parent'' (members git_smart_subtransport_swift) = Some 0 \<and>
   position ''parent'' (members git_smart_subtransport_stream_swift) = Some 0 \<and>
   member_address sz al base git_smart_subtransport_swift ''parent'' = Some base \<and>
   member_address sz al base git_smart_subtransport_stream_swift ''parent'' = Some base"
  by (simp add: member_address_def offsetof_def git_smart_subtransport_swift_def
      git_smart_subtransport_stream_swift_def align_up_zero)

text \<open>
  C4: the header defines exactly two structs, the two wrappers, and one variable,
  the static status-options initializer value; every other line is a preprocessor
  directive, and there is no function definition.
\<close>

theorem header_contents:
  "filter is_struct_def git2_h
     = [git_smart_subtransport_swift, git_smart_subtransport_stream_swift] \<and>
   filter is_var_def git2_h = [git_status_options_init_value] \<and>
   filter is_fun_def git2_h = [] \<and>
   filter (\<lambda>d. \<not> is_directive d) git2_h
     = [git_smart_subtransport_swift, git_smart_subtransport_stream_swift,
        git_status_options_init_value] \<and>
   git_status_options_init_value
     = VarDef [Static] (Named ''git_status_options'') ''git_status_options_init_value''
         (Macro ''GIT_STATUS_OPTIONS_INIT'')"
  by (simp add: git2_h_def git_smart_subtransport_swift_def
      git_smart_subtransport_stream_swift_def git_status_options_init_value_def)

text \<open>
  C6, as stated: the status-options initializer value is immutable. Its declaration
  carries no \<^verbatim>\<open>const\<close>: it is an ordinary modifiable object.
\<close>

theorem init_value_immutable_counterexample:
  "\<not> const_qualified git_status_options_init_value"
  by (simp add: const_qualified_def git_status_options_init_value_def)

text \<open>
  C6, amended: \<^verbatim>\<open>git_status_options_init_value\<close> is a variable of static storage
  and internal linkage, of type \<^verbatim>\<open>git_status_options\<close>, initialised to
  \<^verbatim>\<open>GIT_STATUS_OPTIONS_INIT\<close>; it is the only variable of the header, and the header
  holds no function, hence no code that writes it after its initialisation.
\<close>

theorem init_value_static_unwritten:
  "specifiers git_status_options_init_value = [Static] \<and>
   \<not> const_qualified git_status_options_init_value \<and>
   git_status_options_init_value
     = VarDef [Static] (Named ''git_status_options'') ''git_status_options_init_value''
         (Macro ''GIT_STATUS_OPTIONS_INIT'') \<and>
   filter is_var_def git2_h = [git_status_options_init_value] \<and>
   filter is_fun_def git2_h = []"
  by (simp add: const_qualified_def git2_h_def git_smart_subtransport_swift_def
      git_smart_subtransport_stream_swift_def git_status_options_init_value_def)

section \<open>Properties of the transport plugin layer\<close>

subsection \<open>Registry\<close>

lemma find_snoc:
  "find P (xs @ [x]) = (case find P xs of None \<Rightarrow> (if P x then Some x else None) | Some y \<Rightarrow> Some y)"
  by (induction xs) auto

lemma find_scheme_None: "find (\<lambda>d. scheme d = s) reg = None \<longleftrightarrow> s \<notin> set (map scheme reg)"
  by (induction reg) auto

lemma find_register_all:
  "find (\<lambda>d. scheme d = s) (register_all ps reg) =
     (case find (\<lambda>d. scheme d = s) reg of
        Some d \<Rightarrow> Some d
      | None \<Rightarrow> map_option (\<lambda>f. \<lparr>scheme = s, factory = f\<rparr>) (map_of ps s))"
proof (induction ps arbitrary: reg)
  case Nil
  show ?case by (simp split: option.splits)
next
  case (Cons p ps)
  obtain s' f' where p: "p = (s', f')" by (cases p)
  let ?reg1 = "case register s' f' reg of Inl e \<Rightarrow> reg | Inr reg' \<Rightarrow> reg'"
  have unfold: "register_all (p # ps) reg = register_all ps ?reg1"
    by (simp add: p)
  have reg1: "find (\<lambda>d. scheme d = s) ?reg1 =
      (case find (\<lambda>d. scheme d = s) reg of
         Some d \<Rightarrow> Some d
       | None \<Rightarrow> if s = s' then Some \<lparr>scheme = s, factory = f'\<rparr> else None)"
  proof (cases "s' \<in> set (map scheme reg)")
    case True
    then have "?reg1 = reg" by (simp add: register_def)
    moreover have "find (\<lambda>d. scheme d = s) reg \<noteq> None" if "s = s'"
      using True that find_scheme_None [of s reg] by simp
    ultimately show ?thesis by (auto split: option.splits)
  next
    case False
    then have "?reg1 = reg @ [\<lparr>scheme = s', factory = f'\<rparr>]" by (simp add: register_def)
    then show ?thesis by (auto simp: find_snoc split: option.splits)
  qed
  show ?case
    unfolding unfold Cons.IH [of ?reg1] reg1
    by (simp add: p split: option.splits)
qed

lemma distinct_register_all:
  "distinct (map scheme reg) \<Longrightarrow> distinct (map scheme (register_all ps reg))"
proof (induction ps arbitrary: reg)
  case Nil
  then show ?case by simp
next
  case (Cons p ps)
  obtain s' f' where p: "p = (s', f')" by (cases p)
  have "distinct (map scheme (case register s' f' reg of Inl e \<Rightarrow> reg | Inr reg' \<Rightarrow> reg'))"
    using Cons.prems by (simp add: register_def)
  then show ?case by (simp add: p Cons.IH)
qed

lemma find_distinct:
  "distinct (map scheme reg) \<Longrightarrow> d \<in> set reg \<Longrightarrow> find (\<lambda>x. scheme x = scheme d) reg = Some d"
  by (induction reg) force+

text \<open>
  C10: after any sequence of \<^verbatim>\<open>register\<close> calls on the empty registry, \<^verbatim>\<open>resolve\<close>
  on a URL whose scheme is that of a registered descriptor returns that descriptor's
  factory, which is the factory of the first \<^verbatim>\<open>register\<close> call for the scheme;
  \<^verbatim>\<open>resolve\<close> on a URL with no scheme or with a scheme that is not registered
  fails with UnsupportedSchemeError; and \<^verbatim>\<open>register\<close> on a scheme that is already
  registered fails with DuplicateSchemeError.
\<close>

theorem registry_resolution:
  assumes "reg = register_all ps []"
  shows "(d \<in> set reg \<and> scheme_of url = Some (scheme d) \<longrightarrow> resolve url reg = Inr (factory d)) \<and>
    (map_of ps s = Some f \<and> scheme_of url = Some s \<longrightarrow> resolve url reg = Inr f) \<and>
    ((scheme_of url = None \<or> (\<exists>u. scheme_of url = Some u \<and> u \<notin> set (map scheme reg)))
       \<longrightarrow> resolve url reg = Inl UnsupportedSchemeError) \<and>
    (s \<in> set (map scheme reg) \<longrightarrow> register s g reg = Inl DuplicateSchemeError)"
proof (intro conjI impI)
  have dist: "distinct (map scheme reg)"
    unfolding assms by (rule distinct_register_all) simp
  {
    assume h: "d \<in> set reg \<and> scheme_of url = Some (scheme d)"
    then have "find (\<lambda>x. scheme x = scheme d) reg = Some d"
      using find_distinct [OF dist, of d] by simp
    with h show "resolve url reg = Inr (factory d)"
      by (simp add: resolve_def)
  }
  {
    assume h: "map_of ps s = Some f \<and> scheme_of url = Some s"
    have "find (\<lambda>d. scheme d = s) reg = Some \<lparr>scheme = s, factory = f\<rparr>"
      unfolding assms find_register_all using h by simp
    with h show "resolve url reg = Inr f"
      by (simp add: resolve_def)
  }
  {
    assume h: "scheme_of url = None \<or> (\<exists>u. scheme_of url = Some u \<and> u \<notin> set (map scheme reg))"
    show "resolve url reg = Inl UnsupportedSchemeError"
    proof (cases "scheme_of url")
      case None
      then show ?thesis by (simp add: resolve_def)
    next
      case (Some u)
      with h have "u \<notin> set (map scheme reg)" by simp
      then have "find (\<lambda>d. scheme d = u) reg = None"
        using find_scheme_None [of u reg] by simp
      with Some show ?thesis by (simp add: resolve_def)
    qed
  }
  {
    assume "s \<in> set (map scheme reg)"
    then show "register s g reg = Inl DuplicateSchemeError"
      by (simp add: register_def)
  }
qed
text \<open>
  The registrations \<^verbatim>\<open>mock\<close>, \<^verbatim>\<open>ssh\<close> and \<^verbatim>\<open>mock\<close> again: the second \<^verbatim>\<open>mock\<close> is
  refused, \<^verbatim>\<open>mock://repo\<close> resolves to the first factory and \<^verbatim>\<open>unknown://x\<close> to none.
\<close>

theorem registry_resolution_witness:
  "resolve ''mock://repo''
     (register_all [(''mock'', 1::nat), (''ssh'', 2), (''mock'', 3)] []) = Inr 1 \<and>
   resolve ''ssh://host/repo''
     (register_all [(''mock'', 1::nat), (''ssh'', 2), (''mock'', 3)] []) = Inr 2 \<and>
   resolve ''unknown://x''
     (register_all [(''mock'', 1::nat), (''ssh'', 2), (''mock'', 3)] [])
       = Inl UnsupportedSchemeError \<and>
   register ''mock'' 7 (register_all [(''mock'', 1::nat), (''ssh'', 2), (''mock'', 3)] [])
       = Inl DuplicateSchemeError"
proof -
  let ?ps = "[(''mock'', 1::nat), (''ssh'', 2), (''mock'', 3)]"
  let ?reg = "register_all ?ps []"
  have reg: "?reg = [\<lparr>scheme = ''mock'', factory = 1\<rparr>, \<lparr>scheme = ''ssh'', factory = 2\<rparr>]"
    by (simp add: register_def)
  note mock = registry_resolution [OF refl, where ps = ?ps and url = "''mock://repo''"
      and s = "''mock''" and f = "1::nat" and g = "7::nat"
      and d = "\<lparr>scheme = ''ssh'', factory = 2::nat\<rparr>"]
  note ssh = registry_resolution [OF refl, where ps = ?ps and url = "''ssh://host/repo''"
      and s = "''ssh''" and f = "2::nat" and g = "7::nat"
      and d = "\<lparr>scheme = ''ssh'', factory = 2::nat\<rparr>"]
  note unknown = registry_resolution [OF refl, where ps = ?ps and url = "''unknown://x''"
      and s = "''mock''" and f = "1::nat" and g = "7::nat"
      and d = "\<lparr>scheme = ''ssh'', factory = 2::nat\<rparr>"]
  have h1: "map_of ?ps ''mock'' = Some 1 \<and> scheme_of ''mock://repo'' = Some ''mock''"
    by simp
  have h2: "\<lparr>scheme = ''ssh'', factory = 2::nat\<rparr> \<in> set ?reg \<and>
      scheme_of ''ssh://host/repo'' = Some (scheme \<lparr>scheme = ''ssh'', factory = 2::nat\<rparr>)"
    unfolding reg by simp
  have h3: "scheme_of ''unknown://x'' = None \<or>
      (\<exists>u. scheme_of ''unknown://x'' = Some u \<and> u \<notin> set (map scheme ?reg))"
    unfolding reg by simp
  have h4: "''mock'' \<in> set (map scheme ?reg)"
    unfolding reg by simp
  have r1: "resolve ''mock://repo'' ?reg = Inr 1"
    by (rule mp [OF conjunct1 [OF conjunct2 [OF mock]] h1])
  have r2: "resolve ''ssh://host/repo'' ?reg = Inr 2"
    using mp [OF conjunct1 [OF ssh] h2] by simp
  have r3: "resolve ''unknown://x'' ?reg = Inl UnsupportedSchemeError"
    by (rule mp [OF conjunct1 [OF conjunct2 [OF conjunct2 [OF unknown]]] h3])
  have r4: "register ''mock'' 7 ?reg = Inl DuplicateSchemeError"
    by (rule mp [OF conjunct2 [OF conjunct2 [OF conjunct2 [OF mock]]] h4])
  from r1 r2 r3 r4 show ?thesis by (intro conjI)
qed

subsection \<open>Streams\<close>

lemma stream_read_closed:
  "stream_read n tr st = Inr (bs, st') \<Longrightarrow> closed st' = closed st"
  by (auto simp: stream_read_def split: if_splits)

lemma stream_write_closed:
  "stream_write bs room tr st = Inr (k, st') \<Longrightarrow> closed st' = closed st"
  by (auto simp: stream_write_def split: if_splits)

lemma closed_stream_close: "closed (stream_close st)"
  by (simp add: stream_close_def)

lemma stream_close_closed: "closed st \<Longrightarrow> stream_close st = st"
  by (simp add: stream_close_def)

lemma closed_stream_exec: "closed st \<Longrightarrow> closed (stream_exec x st)"
  by (cases x) (simp_all add: stream_read_def stream_write_def stream_close_def)

lemma closed_stream_run: "closed st \<Longrightarrow> closed (stream_run xs st)"
  by (induction xs arbitrary: st) (simp_all add: closed_stream_exec)

text \<open>
  C9: a read at end-of-data on an open stream returns a zero-length result and not
  an error, and so does every read after the data has been read to its end; a read
  while the transport has failed raises StreamIOError; and once a stream is closed
  it stays closed, and every later read and write on it fails.
\<close>

theorem read_eof_vs_error:
  "(\<not> closed st \<and> inbound st = [] \<longrightarrow> stream_read n Up st = Inr ([], st)) \<and>
   (stream_read n Up st = Inr (bs, st') \<and> length (inbound st) \<le> n
      \<longrightarrow> bs = inbound st \<and> stream_read m Up st' = Inr ([], st')) \<and>
   stream_read n Dropped st = Inl StreamIOError \<and>
   closed (stream_close st) \<and>
   (closed st \<longrightarrow>
      closed (stream_run xs st) \<and>
      stream_read n tr (stream_run xs st) = Inl StreamIOError \<and>
      stream_write ws room tr (stream_run xs st) = Inl StreamIOError)"
proof (intro conjI impI)
  {
    assume "\<not> closed st \<and> inbound st = []"
    then show "stream_read n Up st = Inr ([], st)"
      by (simp add: stream_read_def)
  }
  {
    assume h: "stream_read n Up st = Inr (bs, st') \<and> length (inbound st) \<le> n"
    then have open_st: "\<not> closed st"
      by (auto simp: stream_read_def split: if_splits)
    with h have st': "st' = st\<lparr>inbound := []\<rparr>" and bs: "bs = inbound st"
      by (auto simp: stream_read_def)
    show "bs = inbound st" by (rule bs)
    show "stream_read m Up st' = Inr ([], st')"
      using open_st by (simp add: st' stream_read_def)
  }
  show "stream_read n Dropped st = Inl StreamIOError"
    by (simp add: stream_read_def)
  show "closed (stream_close st)"
    by (rule closed_stream_close)
  {
    assume "closed st"
    then show c: "closed (stream_run xs st)"
      by (rule closed_stream_run)
    then show "stream_read n tr (stream_run xs st) = Inl StreamIOError"
      by (simp add: stream_read_def)
    from c show "stream_write ws room tr (stream_run xs st) = Inl StreamIOError"
      by (simp add: stream_write_def)
  }
qed

text \<open>
  A drained stream, a stream read to its end, and a closed stream that still has
  data.
\<close>

theorem read_eof_vs_error_witness:
  "stream_read 4 Up \<lparr>action = UploadPackLs, direction = Duplex, closed = False,
      inbound = [], buffered = [], flushed = []\<rparr>
     = Inr ([], \<lparr>action = UploadPackLs, direction = Duplex, closed = False,
      inbound = [], buffered = [], flushed = []\<rparr>) \<and>
   stream_read 9 Up (\<lparr>action = UploadPackLs, direction = Duplex, closed = False,
      inbound = ''0000'', buffered = [], flushed = []\<rparr>\<lparr>inbound := []\<rparr>)
     = Inr ([], \<lparr>action = UploadPackLs, direction = Duplex, closed = False,
      inbound = ''0000'', buffered = [], flushed = []\<rparr>\<lparr>inbound := []\<rparr>) \<and>
   stream_read 4 Up (stream_run [SRead 4 Up, SWrite ''0000'' 4 Up, SClose]
      \<lparr>action = UploadPackLs, direction = Duplex, closed = True,
        inbound = ''0000'', buffered = [], flushed = []\<rparr>) = Inl StreamIOError \<and>
   stream_write ''0000'' 4 Up (stream_run [SRead 4 Up, SWrite ''0000'' 4 Up, SClose]
      \<lparr>action = UploadPackLs, direction = Duplex, closed = True,
        inbound = ''0000'', buffered = [], flushed = []\<rparr>) = Inl StreamIOError"
proof -
  let ?eof = "\<lparr>action = UploadPackLs, direction = Duplex, closed = False,
      inbound = [], buffered = [], flushed = []\<rparr>"
  let ?full = "\<lparr>action = UploadPackLs, direction = Duplex, closed = False,
      inbound = ''0000'', buffered = [], flushed = []\<rparr>"
  let ?shut = "\<lparr>action = UploadPackLs, direction = Duplex, closed = True,
      inbound = ''0000'', buffered = [], flushed = []\<rparr>"
  let ?xs = "[SRead 4 Up, SWrite ''0000'' 4 Up, SClose]"
  have h1: "\<not> closed ?eof \<and> inbound ?eof = []"
    by simp
  have h2: "stream_read 4 Up ?full = Inr (''0000'', ?full\<lparr>inbound := []\<rparr>) \<and>
      length (inbound ?full) \<le> 4"
    by (simp add: stream_read_def)
  have h3: "closed ?shut"
    by simp
  have r1: "stream_read 4 Up ?eof = Inr ([], ?eof)"
    by (rule mp [OF conjunct1 [OF read_eof_vs_error [where st = ?eof and n = 4]] h1])
  have r2: "stream_read 9 Up (?full\<lparr>inbound := []\<rparr>) = Inr ([], ?full\<lparr>inbound := []\<rparr>)"
    by (rule conjunct2 [OF mp [OF conjunct1 [OF conjunct2
        [OF read_eof_vs_error [where st = ?full and n = 4 and m = 9]]] h2]])
  note shut = mp [OF conjunct2 [OF conjunct2 [OF conjunct2 [OF conjunct2
        [OF read_eof_vs_error [where st = ?shut and xs = ?xs and n = 4 and tr = Up
          and ws = "''0000''" and room = 4]]]]] h3]
  have r3: "stream_read 4 Up (stream_run ?xs ?shut) = Inl StreamIOError"
    by (rule conjunct1 [OF conjunct2 [OF shut]])
  have r4: "stream_write ''0000'' 4 Up (stream_run ?xs ?shut) = Inl StreamIOError"
    by (rule conjunct2 [OF conjunct2 [OF shut]])
  show ?thesis
    by (rule conjI [OF r1 conjI [OF r2 conjI [OF r3 r4]]])
qed

subsection \<open>Subtransport\<close>

lemma filter_update_same:
  "i < length xs \<Longrightarrow> P y = P (xs ! i) \<Longrightarrow> length (filter P (xs[i := y])) = length (filter P xs)"
proof (induction xs arbitrary: i)
  case Nil
  then show ?case by simp
next
  case (Cons x xs)
  then show ?case by (cases i) auto
qed

lemma filter_update_le:
  "\<not> P y \<Longrightarrow> length (filter P (xs[i := y])) \<le> length (filter P xs)"
proof (induction xs arbitrary: i)
  case Nil
  then show ?case by simp
next
  case (Cons x xs)
  show ?case
  proof (cases i)
    case 0
    with Cons.prems show ?thesis by simp
  next
    case (Suc j)
    with Cons.IH [OF Cons.prems, of j] show ?thesis by simp
  qed
qed

lemma open_streams_action:
  "subtransport_action ty conn s = Inr (i, s') \<Longrightarrow>
     open_streams s = [] \<and> i = length (streams s) \<and> i < length (streams s') \<and>
     open_streams s' = [streams s' ! i] \<and> contextHandle s' = contextHandle s \<and>
     releases s' = releases s \<and> connectionState s' = Open"
  by (auto simp: subtransport_action_def open_streams_def nth_append
      split: if_splits connect.splits)

lemma open_streams_close:
  "open_streams (subtransport_close s) = (if connectionState s = Closed then open_streams s else [])"
  by (simp add: subtransport_close_def open_streams_def release_context_def
      closed_stream_close filter_empty_conv split: option.splits)

lemma on_stream_fields:
  "on_stream i f s = Inr s' \<Longrightarrow>
     contextHandle s' = contextHandle s \<and> releases s' = releases s \<and>
     connectionState s' = connectionState s"
  by (auto simp: on_stream_def split: if_splits sum.splits)

lemma on_stream_open_same:
  assumes "on_stream i f s = Inr s'"
    and "\<And>st st'. f st = Inr st' \<Longrightarrow> closed st' = closed st"
  shows "length (open_streams s') = length (open_streams s)"
proof (cases "i < length (streams s)")
  case True
  with assms(1) obtain st' where f: "f (streams s ! i) = Inr st'"
    and s': "s' = s\<lparr>streams := (streams s)[i := st']\<rparr>"
    by (auto simp: on_stream_def split: sum.splits)
  from assms(2) [OF f] have "(\<not> closed st') = (\<not> closed (streams s ! i))" by simp
  from filter_update_same [OF True, of "\<lambda>st. \<not> closed st" st', OF this]
  show ?thesis by (simp add: s' open_streams_def)
next
  case False
  with assms(1) show ?thesis by (simp add: on_stream_def)
qed

lemma on_stream_open_le:
  assumes "on_stream i f s = Inr s'"
    and "\<And>st st'. f st = Inr st' \<Longrightarrow> closed st'"
  shows "length (open_streams s') \<le> length (open_streams s)"
proof (cases "i < length (streams s)")
  case True
  with assms(1) obtain st' where f: "f (streams s ! i) = Inr st'"
    and s': "s' = s\<lparr>streams := (streams s)[i := st']\<rparr>"
    by (auto simp: on_stream_def split: sum.splits)
  from assms(2) [OF f] have "\<not> (\<not> closed st')" by simp
  from filter_update_le [of "\<lambda>st. \<not> closed st" st', OF this]
  show ?thesis by (simp add: s' open_streams_def)
next
  case False
  with assms(1) show ?thesis by (simp add: on_stream_def)
qed

lemma step_open_streams:
  assumes "step x s = Inr s'" and "length (open_streams s) \<le> 1"
  shows "length (open_streams s') \<le> 1"
proof (cases x)
  case (Action ty conn)
  with assms(1) obtain i where "subtransport_action ty conn s = Inr (i, s')"
    by (auto split: sum.splits)
  from open_streams_action [OF this] show ?thesis by simp
next
  case (Read i n tr)
  with assms(1) have "length (open_streams s') = length (open_streams s)"
    by (auto intro!: on_stream_open_same dest: stream_read_closed split: sum.splits)
  with assms(2) show ?thesis by simp
next
  case (Write i bs room tr)
  with assms(1) have "length (open_streams s') = length (open_streams s)"
    by (auto intro!: on_stream_open_same dest: stream_write_closed split: sum.splits)
  with assms(2) show ?thesis by simp
next
  case (CloseStream i)
  with assms(1) have "length (open_streams s') \<le> length (open_streams s)"
    by (auto intro!: on_stream_open_le simp: closed_stream_close)
  with assms(2) show ?thesis by simp
next
  case Close
  with assms(1) have "s' = subtransport_close s" by simp
  with assms(2) show ?thesis
    by (simp add: open_streams_close)
qed

lemma exec_open_streams:
  "length (open_streams s) \<le> 1 \<Longrightarrow> length (open_streams (exec x s)) \<le> 1"
  using step_open_streams [of x s] by (auto simp: exec_def split: sum.splits)

lemma run_open_streams:
  "length (open_streams s) \<le> 1 \<Longrightarrow> length (open_streams (run xs s)) \<le> 1"
proof (induction xs arbitrary: s)
  case Nil
  then show ?case by simp
next
  case (Cons x xs)
  from Cons.IH [OF exec_open_streams [OF Cons.prems, of x]] show ?case by simp
qed

lemma subtransport_open_fields:
  "subtransport_open url dir owner h = Inr s0 \<Longrightarrow>
     streams s0 = [] \<and> contextHandle s0 = Some h \<and> releases s0 = 0 \<and>
     connectionState s0 = Created \<and> ownerHandle s0 = owner \<and> remoteURL s0 = url"
  by (auto simp: subtransport_open_def split: if_splits)


text \<open>
  C8: after every sequence of calls on a freshly opened subtransport at most one of
  its streams is open; while one is open, \<^verbatim>\<open>action\<close> fails with SequenceError and
  leaves the subtransport, hence its streams, as they were. In particular the
  \<^verbatim>\<open>action\<close> that follows a successful \<^verbatim>\<open>action\<close> fails so.
\<close>

theorem one_active_stream:
  assumes "subtransport_open url dir owner h = Inr s0"
  shows "length (open_streams (run xs s0)) \<le> 1 \<and>
    (open_streams (run xs s0) \<noteq> [] \<longrightarrow>
       subtransport_action ty conn (run xs s0) = Inl SequenceError \<and>
       exec (Action ty conn) (run xs s0) = run xs s0) \<and>
    (subtransport_action ty conn (run xs s0) = Inr (i, s1) \<longrightarrow>
       open_streams s1 = [streams s1 ! i] \<and>
       subtransport_action ty' conn' s1 = Inl SequenceError \<and>
       exec (Action ty' conn') s1 = s1)"
proof (intro conjI impI)
  from subtransport_open_fields [OF assms] have "length (open_streams s0) \<le> 1"
    by (simp add: open_streams_def)
  then show "length (open_streams (run xs s0)) \<le> 1"
    by (rule run_open_streams)
  {
    assume busy: "open_streams (run xs s0) \<noteq> []"
    then show fails: "subtransport_action ty conn (run xs s0) = Inl SequenceError"
      by (simp add: subtransport_action_def)
    then show "exec (Action ty conn) (run xs s0) = run xs s0"
      by (simp add: exec_def)
  }
  {
    assume "subtransport_action ty conn (run xs s0) = Inr (i, s1)"
    from open_streams_action [OF this]
    show one: "open_streams s1 = [streams s1 ! i]" by simp
    then show fails: "subtransport_action ty' conn' s1 = Inl SequenceError"
      by (simp add: subtransport_action_def)
    then show "exec (Action ty' conn') s1 = s1"
      by (simp add: exec_def)
  }
qed

text \<open>
  A second action right after the first, which left its stream open: it fails with
  SequenceError, also when the network would have refused the connection.
\<close>

theorem one_active_stream_witness:
  "length (open_streams (run [Action UploadPackLs (Connected ''0000'')]
      \<lparr>remoteURL = ''mock://repo'', openDirection = Duplex, connectionState = Created,
        ownerHandle = 7, contextHandle = Some 42, releases = 0, streams = []\<rparr>)) \<le> 1 \<and>
   subtransport_action UploadPack (Connected ''0000'')
     (run [Action UploadPackLs (Connected ''0000'')]
      \<lparr>remoteURL = ''mock://repo'', openDirection = Duplex, connectionState = Created,
        ownerHandle = 7, contextHandle = Some 42, releases = 0, streams = []\<rparr>)
     = Inl SequenceError \<and>
   exec (Action UploadPack (Connected ''0000''))
     (run [Action UploadPackLs (Connected ''0000'')]
      \<lparr>remoteURL = ''mock://repo'', openDirection = Duplex, connectionState = Created,
        ownerHandle = 7, contextHandle = Some 42, releases = 0, streams = []\<rparr>)
     = run [Action UploadPackLs (Connected ''0000'')]
      \<lparr>remoteURL = ''mock://repo'', openDirection = Duplex, connectionState = Created,
        ownerHandle = 7, contextHandle = Some 42, releases = 0, streams = []\<rparr> \<and>
   subtransport_action ReceivePack Refused
     \<lparr>remoteURL = ''mock://repo'', openDirection = Duplex, connectionState = Open,
      ownerHandle = 7, contextHandle = Some 42, releases = 0,
      streams = [\<lparr>action = UploadPackLs, direction = Duplex, closed = False,
                  inbound = ''0000'', buffered = [], flushed = []\<rparr>]\<rparr>
     = Inl SequenceError"
proof -
  let ?s0 = "\<lparr>remoteURL = ''mock://repo'', openDirection = Duplex, connectionState = Created,
        ownerHandle = 7, contextHandle = Some 42, releases = 0, streams = []\<rparr>"
  let ?s1 = "\<lparr>remoteURL = ''mock://repo'', openDirection = Duplex, connectionState = Open,
      ownerHandle = 7, contextHandle = Some 42, releases = 0,
      streams = [\<lparr>action = UploadPackLs, direction = Duplex, closed = False,
                  inbound = ''0000'', buffered = [], flushed = []\<rparr>]\<rparr>"
  let ?xs = "[Action UploadPackLs (Connected ''0000'')]"
  have opened: "subtransport_open ''mock://repo'' Duplex 7 42 = Inr ?s0"
    by (simp add: subtransport_open_def)
  have busy: "open_streams (run ?xs ?s0) \<noteq> []"
    by (simp add: exec_def subtransport_action_def open_streams_def)
  have first: "subtransport_action UploadPackLs (Connected ''0000'') (run [] ?s0) = Inr (0, ?s1)"
    by (simp add: subtransport_action_def open_streams_def)
  note inst = one_active_stream [OF opened, where xs = ?xs and ty = UploadPack
      and conn = "Connected ''0000''"]
  note inst' = one_active_stream [OF opened, where xs = "[]" and ty = UploadPackLs
      and conn = "Connected ''0000''" and i = 0 and ?s1.0 = ?s1 and ty' = ReceivePack
      and conn' = Refused]
  have second: "subtransport_action ReceivePack Refused ?s1 = Inl SequenceError"
    by (rule conjunct1 [OF conjunct2 [OF mp [OF conjunct2 [OF conjunct2 [OF inst']] first]]])
  have third: "subtransport_action UploadPack (Connected ''0000'') (run ?xs ?s0) = Inl SequenceError \<and>
      exec (Action UploadPack (Connected ''0000'')) (run ?xs ?s0) = run ?xs ?s0"
    by (rule mp [OF conjunct1 [OF conjunct2 [OF inst]] busy])
  show ?thesis
    by (intro conjI conjunct1 [OF inst] conjunct1 [OF third] conjunct2 [OF third] second)
qed

subsection \<open>The context handle\<close>

lemma step_not_close:
  "step x s = Inr s' \<Longrightarrow> x \<noteq> Close \<Longrightarrow>
     contextHandle s' = contextHandle s \<and> releases s' = releases s \<and>
     (connectionState s' = connectionState s \<or> connectionState s' = Open)"
proof (cases x)
  case (Action ty conn)
  assume "step x s = Inr s'"
  with Action obtain i where "subtransport_action ty conn s = Inr (i, s')"
    by (auto split: sum.splits)
  from open_streams_action [OF this] show ?thesis by simp
next
  case (Read i n tr)
  assume "step x s = Inr s'"
  with Read show ?thesis by (auto dest: on_stream_fields)
next
  case (Write i bs room tr)
  assume "step x s = Inr s'"
  with Write show ?thesis by (auto dest: on_stream_fields)
next
  case (CloseStream i)
  assume "step x s = Inr s'"
  with CloseStream show ?thesis by (auto dest: on_stream_fields)
next
  case Close
  assume "x \<noteq> Close"
  with Close show ?thesis by simp
qed

lemma exec_not_close:
  "x \<noteq> Close \<Longrightarrow>
     contextHandle (exec x s) = contextHandle s \<and> releases (exec x s) = releases s \<and>
     (connectionState (exec x s) = connectionState s \<or> connectionState (exec x s) = Open)"
  using step_not_close [of x s] by (auto simp: exec_def split: sum.splits)

lemma exec_close: "exec Close s = subtransport_close s"
  by (simp add: exec_def)

lemma handle_inv_close:
  "handle_inv s \<Longrightarrow> handle_inv (subtransport_close s) \<and> contextHandle (subtransport_close s) = None"
  by (auto simp: handle_inv_def subtransport_close_def release_context_def split: option.splits)

lemma handle_inv_exec: "handle_inv s \<Longrightarrow> handle_inv (exec x s)"
proof (cases "x = Close")
  case True
  assume "handle_inv s"
  with True show ?thesis by (simp add: exec_close handle_inv_close)
next
  case False
  assume "handle_inv s"
  with exec_not_close [OF False, of s] show ?thesis
    by (auto simp: handle_inv_def)
qed

lemma released_exec: "contextHandle s = None \<Longrightarrow> contextHandle (exec x s) = None"
proof (cases "x = Close")
  case True
  assume "contextHandle s = None"
  with True show ?thesis
    by (simp add: exec_close subtransport_close_def release_context_def)
next
  case False
  assume "contextHandle s = None"
  with exec_not_close [OF False, of s] show ?thesis by simp
qed

lemma handle_inv_run: "handle_inv s \<Longrightarrow> handle_inv (run xs s)"
  by (induction xs arbitrary: s) (simp_all add: handle_inv_exec)

lemma released_run: "contextHandle s = None \<Longrightarrow> contextHandle (run xs s) = None"
  by (induction xs arbitrary: s) (simp_all add: released_exec)

lemma run_with_close:
  "Close \<in> set xs \<Longrightarrow> handle_inv s \<Longrightarrow> contextHandle (run xs s) = None"
proof (induction xs arbitrary: s)
  case Nil
  then show ?case by simp
next
  case (Cons x xs)
  show ?case
  proof (cases "x = Close")
    case True
    with Cons.prems(2) have "contextHandle (exec x s) = None"
      by (simp add: exec_close handle_inv_close)
    then show ?thesis by (simp add: released_run)
  next
    case False
    with Cons.prems(1) have "Close \<in> set xs" by simp
    from Cons.IH [OF this handle_inv_exec [OF Cons.prems(2)]] show ?thesis by simp
  qed
qed

lemma run_without_close:
  "Close \<notin> set xs \<Longrightarrow>
     contextHandle (run xs s) = contextHandle s \<and> releases (run xs s) = releases s"
proof (induction xs arbitrary: s)
  case Nil
  then show ?case by simp
next
  case (Cons x xs)
  then have "x \<noteq> Close" and rest: "Close \<notin> set xs" by auto
  from exec_not_close [OF this(1), of s] Cons.IH [OF rest, of "exec x s"]
  show ?case by simp
qed

lemma step_no_release_error: "step x s \<noteq> Inl HandleReleaseError"
  by (cases x)
    (auto simp: subtransport_action_def on_stream_def stream_read_def stream_write_def
      split: if_splits connect.splits sum.splits)

text \<open>
  C1: for every sequence of calls on a freshly opened subtransport, the release
  counter of its context handle is 1 as soon as the sequence holds a \<^verbatim>\<open>close\<close>,
  however many, and 0 before the first one; and no call ever returns
  HandleReleaseError.
\<close>

theorem context_released_once:
  assumes "subtransport_open url dir owner h = Inr s0"
  shows "(Close \<in> set xs \<longrightarrow> releases (run xs s0) = 1 \<and> contextHandle (run xs s0) = None) \<and>
    (Close \<notin> set xs \<longrightarrow> releases (run xs s0) = 0 \<and> contextHandle (run xs s0) = Some h) \<and>
    step x (run xs s0) \<noteq> Inl HandleReleaseError"
proof (intro conjI impI)
  from subtransport_open_fields [OF assms] have inv0: "handle_inv s0"
    by (simp add: handle_inv_def)
  {
    assume close: "Close \<in> set xs"
    from run_with_close [OF close inv0]
    show gone: "contextHandle (run xs s0) = None" .
    from handle_inv_run [OF inv0, of xs] gone
    show "releases (run xs s0) = 1" by (simp add: handle_inv_def)
  }
  {
    assume "Close \<notin> set xs"
    from run_without_close [OF this, of s0] subtransport_open_fields [OF assms]
    show "releases (run xs s0) = 0" and "contextHandle (run xs s0) = Some h" by simp_all
  }
  show "step x (run xs s0) \<noteq> Inl HandleReleaseError"
    by (rule step_no_release_error)
qed

text \<open>Three closes, with an action in between, release once; no close, no release.\<close>

theorem context_released_once_witness:
  "releases (run [Action UploadPackLs (Connected ''0000''), Close, Close,
                  Action UploadPack (Connected []), Close]
      \<lparr>remoteURL = ''mock://repo'', openDirection = Duplex, connectionState = Created,
        ownerHandle = 7, contextHandle = Some 42, releases = 0, streams = []\<rparr>) = 1 \<and>
   releases (run [Action UploadPackLs (Connected ''0000''), CloseStream 0]
      \<lparr>remoteURL = ''mock://repo'', openDirection = Duplex, connectionState = Created,
        ownerHandle = 7, contextHandle = Some 42, releases = 0, streams = []\<rparr>) = 0"
proof -
  let ?s0 = "\<lparr>remoteURL = ''mock://repo'', openDirection = Duplex, connectionState = Created,
        ownerHandle = 7, contextHandle = Some 42, releases = 0, streams = []\<rparr>"
  let ?xs = "[Action UploadPackLs (Connected ''0000''), Close, Close,
              Action UploadPack (Connected []), Close]"
  let ?ys = "[Action UploadPackLs (Connected ''0000''), CloseStream 0]"
  have opened: "subtransport_open ''mock://repo'' Duplex 7 42 = Inr ?s0"
    by (simp add: subtransport_open_def)
  have closes: "Close \<in> set ?xs" by simp
  have no_close: "Close \<notin> set ?ys" by simp
  from mp [OF conjunct1 [OF context_released_once [OF opened, where xs = ?xs]] closes]
  have r1: "releases (run ?xs ?s0) = 1" by (rule conjunct1)
  from mp [OF conjunct1 [OF conjunct2 [OF context_released_once [OF opened, where xs = ?ys]]] no_close]
  have r2: "releases (run ?ys ?s0) = 0" by (rule conjunct1)
  from r1 r2 show ?thesis by (rule conjI)
qed

subsection \<open>Close\<close>

text \<open>
  C7: \<^verbatim>\<open>close\<close> on a subtransport that is already closed, and on a stream that is
  already closed, returns without error and leaves the object as it is; closing
  twice is closing once; and no \<^verbatim>\<open>close\<close> raises.
\<close>

theorem close_idempotent:
  "(connectionState s = Closed \<longrightarrow> subtransport_close s = s \<and> step Close s = Inr s) \<and>
   (closed st \<longrightarrow> stream_close st = st) \<and>
   (i < length (streams s) \<and> closed (streams s ! i) \<longrightarrow> step (CloseStream i) s = Inr s) \<and>
   subtransport_close (subtransport_close s) = subtransport_close s \<and>
   stream_close (stream_close st) = stream_close st \<and>
   connectionState (subtransport_close s) = Closed \<and>
   closed (stream_close st) \<and>
   step Close s \<noteq> Inl e \<and> step (CloseStream i) s \<noteq> Inl e"
proof (intro conjI impI)
  show "subtransport_close s = s" if "connectionState s = Closed"
    using that by (simp add: subtransport_close_def)
  then show "step Close s = Inr s" if "connectionState s = Closed"
    using that by simp
  show "stream_close st = st" if "closed st"
    using that by (rule stream_close_closed)
  show "step (CloseStream i) s = Inr s" if "i < length (streams s) \<and> closed (streams s ! i)"
    using that by (simp add: on_stream_def stream_close_closed)
  show closed_state: "connectionState (subtransport_close s) = Closed"
    by (simp add: subtransport_close_def release_context_def split: option.splits)
  then show "subtransport_close (subtransport_close s) = subtransport_close s"
    by (simp add: subtransport_close_def [of "subtransport_close s"])
  show "stream_close (stream_close st) = stream_close st"
    by (simp add: stream_close_closed closed_stream_close)
  show "closed (stream_close st)"
    by (rule closed_stream_close)
  show "step Close s \<noteq> Inl e" by simp
  show "step (CloseStream i) s \<noteq> Inl e"
    by (simp add: on_stream_def)
qed


text \<open>A subtransport closed with its stream, closed again.\<close>

theorem close_idempotent_witness:
  "step Close (run [Action UploadPackLs (Connected ''0000''), Close]
      \<lparr>remoteURL = ''mock://repo'', openDirection = Duplex, connectionState = Created,
        ownerHandle = 7, contextHandle = Some 42, releases = 0, streams = []\<rparr>)
     = Inr (run [Action UploadPackLs (Connected ''0000''), Close]
      \<lparr>remoteURL = ''mock://repo'', openDirection = Duplex, connectionState = Created,
        ownerHandle = 7, contextHandle = Some 42, releases = 0, streams = []\<rparr>) \<and>
   step (CloseStream 0) (run [Action UploadPackLs (Connected ''0000''), Close]
      \<lparr>remoteURL = ''mock://repo'', openDirection = Duplex, connectionState = Created,
        ownerHandle = 7, contextHandle = Some 42, releases = 0, streams = []\<rparr>)
     = Inr (run [Action UploadPackLs (Connected ''0000''), Close]
      \<lparr>remoteURL = ''mock://repo'', openDirection = Duplex, connectionState = Created,
        ownerHandle = 7, contextHandle = Some 42, releases = 0, streams = []\<rparr>) \<and>
   stream_close \<lparr>action = UploadPackLs, direction = Duplex, closed = True,
      inbound = ''0000'', buffered = [], flushed = []\<rparr>
     = \<lparr>action = UploadPackLs, direction = Duplex, closed = True,
      inbound = ''0000'', buffered = [], flushed = []\<rparr>"
proof -
  let ?s0 = "\<lparr>remoteURL = ''mock://repo'', openDirection = Duplex, connectionState = Created,
        ownerHandle = 7, contextHandle = Some 42, releases = 0, streams = []\<rparr>"
  let ?st = "\<lparr>action = UploadPackLs, direction = Duplex, closed = True,
      inbound = ''0000'', buffered = [], flushed = []\<rparr>"
  let ?s = "run [Action UploadPackLs (Connected ''0000''), Close] ?s0"
  have s: "?s = \<lparr>remoteURL = ''mock://repo'', openDirection = Duplex, connectionState = Closed,
        ownerHandle = 7, contextHandle = None, releases = 1, streams = [?st]\<rparr>"
    by (simp add: exec_def subtransport_action_def open_streams_def subtransport_close_def
        release_context_def stream_close_def)
  have h1: "connectionState ?s = Closed"
    unfolding s by simp
  have h2: "closed ?st"
    by simp
  have h3: "0 < length (streams ?s) \<and> closed (streams ?s ! 0)"
    unfolding s by simp
  note inst = close_idempotent [where s = ?s and st = ?st and i = 0]
  have r1: "step Close ?s = Inr ?s"
    by (rule conjunct2 [OF mp [OF conjunct1 [OF inst] h1]])
  have r2: "step (CloseStream 0) ?s = Inr ?s"
    by (rule mp [OF conjunct1 [OF conjunct2 [OF conjunct2 [OF inst]]] h3])
  have r3: "stream_close ?st = ?st"
    by (rule mp [OF conjunct1 [OF conjunct2 [OF inst]] h2])
  show ?thesis
    by (rule conjI [OF r1 conjI [OF r2 r3]])
qed

subsection \<open>The owner back-reference\<close>

lemma step_owner: "step x s = Inr s' \<Longrightarrow> ownerHandle s' = ownerHandle s"
proof (cases x)
  case (Action ty conn)
  assume "step x s = Inr s'"
  with Action show ?thesis
    by (auto simp: subtransport_action_def split: if_splits connect.splits sum.splits)
next
  case (Read i n tr)
  assume "step x s = Inr s'"
  with Read show ?thesis
    by (auto simp: on_stream_def split: if_splits sum.splits)
next
  case (Write i bs room tr)
  assume "step x s = Inr s'"
  with Write show ?thesis
    by (auto simp: on_stream_def split: if_splits sum.splits)
next
  case (CloseStream i)
  assume "step x s = Inr s'"
  with CloseStream show ?thesis
    by (auto simp: on_stream_def split: if_splits sum.splits)
next
  case Close
  assume "step x s = Inr s'"
  with Close show ?thesis
    by (auto simp: subtransport_close_def release_context_def split: if_splits option.splits)
qed

lemma exec_owner: "ownerHandle (exec x s) = ownerHandle s"
  using step_owner [of x s] by (auto simp: exec_def split: sum.splits)

lemma run_owner: "ownerHandle (run xs s) = ownerHandle s"
  by (induction xs arbitrary: s) (simp_all add: exec_owner)

lemma open_streams_owner: "open_streams (s\<lparr>ownerHandle := b\<rparr>) = open_streams s"
  by (simp add: open_streams_def)

lemma on_stream_owner:
  "on_stream i f (s\<lparr>ownerHandle := b\<rparr>) = map_sum id (\<lambda>s'. s'\<lparr>ownerHandle := b\<rparr>) (on_stream i f s)"
  by (simp add: on_stream_def split: sum.splits)

lemma step_ignores_owner:
  "step x (s\<lparr>ownerHandle := b\<rparr>) = map_sum id (\<lambda>s'. s'\<lparr>ownerHandle := b\<rparr>) (step x s)"
proof (cases x)
  case (Action ty conn)
  then show ?thesis
    by (simp add: subtransport_action_def open_streams_owner split: connect.splits)
next
  case (Read i n tr)
  then show ?thesis by (simp add: on_stream_owner)
next
  case (Write i bs room tr)
  then show ?thesis by (simp add: on_stream_owner)
next
  case (CloseStream i)
  then show ?thesis by (simp add: on_stream_owner)
next
  case Close
  then show ?thesis
    by (simp add: subtransport_close_def release_context_def split: option.splits)
qed

lemma report_owner:
  "report x s = Some (a, e) \<Longrightarrow> a = ownerHandle s \<and> e = ConnectionError"
  by (auto simp: report_def split: sum.splits if_splits)


text \<open>
  C5: the Subtransport wrapper holds an owner back-reference, a pointer to the
  invoking \<^verbatim>\<open>git_transport\<close>, in addition to the context pointer, while the Stream
  wrapper adds only the context pointer and has no owner member. The owner is weak:
  whatever calls are made on a subtransport, it keeps the owner it was opened with
  and never gives it back, also at \<^verbatim>\<open>close\<close>, where the context handle is released;
  no call's outcome depends on the owner; and the only use of it is as the
  addressee of the report of a connection failure.
\<close>

theorem owner_only_in_subtransport:
  assumes "subtransport_open url dir owner h = Inr s0"
  shows "added_members git_smart_subtransport_swift
     = [(Pointer (Named ''git_transport''), ''owner''), (Pointer Void, ''context'')] \<and>
   added_members git_smart_subtransport_stream_swift = [(Pointer Void, ''context'')] \<and>
   member_type ''owner'' (members git_smart_subtransport_swift)
     = Some (Pointer (Named ''git_transport'')) \<and>
   member_type ''owner'' (members git_smart_subtransport_stream_swift) = None \<and>
   Pointer (Named ''git_transport'') \<notin> fst ` set (members git_smart_subtransport_stream_swift) \<and>
   filter is_fun_def git2_h = [] \<and>
   ownerHandle (run xs s0) = owner \<and>
   (Close \<in> set xs \<longrightarrow>
      contextHandle (run xs s0) = None \<and> releases (run xs s0) = 1 \<and>
      ownerHandle (run xs s0) = owner) \<and>
   step x (s\<lparr>ownerHandle := b\<rparr>) = map_sum id (\<lambda>s'. s'\<lparr>ownerHandle := b\<rparr>) (step x s) \<and>
   (case report x (run xs s0) of
      None \<Rightarrow> True
    | Some (a, e) \<Rightarrow> a = owner \<and> e = ConnectionError)"
proof -
  have header: "added_members git_smart_subtransport_swift
       = [(Pointer (Named ''git_transport''), ''owner''), (Pointer Void, ''context'')]"
    "added_members git_smart_subtransport_stream_swift = [(Pointer Void, ''context'')]"
    "member_type ''owner'' (members git_smart_subtransport_swift)
       = Some (Pointer (Named ''git_transport''))"
    "member_type ''owner'' (members git_smart_subtransport_stream_swift) = None"
    "Pointer (Named ''git_transport'') \<notin> fst ` set (members git_smart_subtransport_stream_swift)"
    "filter is_fun_def git2_h = []"
    by (simp_all add: added_members_def git2_h_def git_smart_subtransport_swift_def
        git_smart_subtransport_stream_swift_def git_status_options_init_value_def)
  from subtransport_open_fields [OF assms] have inv0: "handle_inv s0"
    and owner0: "ownerHandle s0 = owner"
    by (simp_all add: handle_inv_def)
  have kept: "ownerHandle (run xs s0) = owner"
    by (simp add: run_owner owner0)
  have at_close: "contextHandle (run xs s0) = None \<and> releases (run xs s0) = 1 \<and>
      ownerHandle (run xs s0) = owner" if close: "Close \<in> set xs"
  proof -
    from run_with_close [OF close inv0] have gone: "contextHandle (run xs s0) = None" .
    with handle_inv_run [OF inv0, of xs] have "releases (run xs s0) = 1"
      by (simp add: handle_inv_def)
    with gone kept show ?thesis by simp
  qed
  have addressee: "(case report x (run xs s0) of
      None \<Rightarrow> True
    | Some (a, e) \<Rightarrow> a = owner \<and> e = ConnectionError)"
  proof (cases "report x (run xs s0)")
    case None
    then show ?thesis by simp
  next
    case (Some r)
    obtain a e where r: "r = (a, e)" by (cases r)
    from report_owner [of x "run xs s0" a e] Some r kept show ?thesis by simp
  qed
  show ?thesis
    by (intro conjI impI header kept step_ignores_owner addressee at_close)
qed

text \<open>
  A subtransport opened with owner 7 and context handle 42, used and closed: the
  context handle is gone, the owner is still 7, and a refused action is reported
  to it.
\<close>

theorem owner_only_in_subtransport_witness:
  "ownerHandle (run [Action UploadPackLs (Connected ''0000''), Close]
      \<lparr>remoteURL = ''mock://repo'', openDirection = Duplex, connectionState = Created,
        ownerHandle = 7, contextHandle = Some 42, releases = 0, streams = []\<rparr>) = 7 \<and>
   contextHandle (run [Action UploadPackLs (Connected ''0000''), Close]
      \<lparr>remoteURL = ''mock://repo'', openDirection = Duplex, connectionState = Created,
        ownerHandle = 7, contextHandle = Some 42, releases = 0, streams = []\<rparr>) = None \<and>
   report (Action UploadPack Refused)
     (run [Action UploadPackLs (Connected ''0000''), Close]
      \<lparr>remoteURL = ''mock://repo'', openDirection = Duplex, connectionState = Created,
        ownerHandle = 7, contextHandle = Some 42, releases = 0, streams = []\<rparr>)
     = Some (7, ConnectionError)"
proof -
  let ?s0 = "\<lparr>remoteURL = ''mock://repo'', openDirection = Duplex, connectionState = Created,
        ownerHandle = 7, contextHandle = Some 42, releases = 0, streams = []\<rparr>"
  let ?xs = "[Action UploadPackLs (Connected ''0000''), Close]"
  have opened: "subtransport_open ''mock://repo'' Duplex 7 42 = Inr ?s0"
    by (simp add: subtransport_open_def)
  have closes: "Close \<in> set ?xs"
    by simp
  note inst = owner_only_in_subtransport [OF opened, where xs = ?xs
      and x = "Action UploadPack Refused"]
  note model = conjunct2 [OF conjunct2 [OF conjunct2 [OF conjunct2 [OF conjunct2
      [OF conjunct2 [OF inst]]]]]]
  have r1: "ownerHandle (run ?xs ?s0) = 7"
    by (rule conjunct1 [OF model])
  have r2: "contextHandle (run ?xs ?s0) = None"
    by (rule conjunct1 [OF mp [OF conjunct1 [OF conjunct2 [OF model]] closes]])
  have reported: "report (Action UploadPack Refused) (run ?xs ?s0) \<noteq> None"
    by (simp add: report_def exec_def subtransport_action_def open_streams_def
        subtransport_close_def release_context_def stream_close_def)
  then obtain a e where some: "report (Action UploadPack Refused) (run ?xs ?s0) = Some (a, e)"
    by (cases "report (Action UploadPack Refused) (run ?xs ?s0)") auto
  with conjunct2 [OF conjunct2 [OF conjunct2 [OF model]]]
  have "a = 7 \<and> e = ConnectionError"
    by simp
  with some have r3: "report (Action UploadPack Refused) (run ?xs ?s0) = Some (7, ConnectionError)"
    by simp
  show ?thesis
    by (rule conjI [OF r1 conjI [OF r2 r3]])
qed

end
